theory Spec2Isabelle
  imports Complex_Main
begin

section \<open>Tiered assignment of teaching assistants to courses (optimize.py)\<close>

text \<open>
  The development embeds the two functions of \<^verbatim>\<open>optimize.py\<close>: the cost table of
  \<^verbatim>\<open>makeRandData\<close> and the tier loop of \<^verbatim>\<open>solve\<close>. The minimum-cost-flow solver
  (\<^verbatim>\<open>ortools.graph.python.min_cost_flow.SimpleMinCostFlow\<close>) is an external library: the
  network that \<^verbatim>\<open>solve\<close> hands to it is a value of the model, and the solver itself is a
  parameter of \<^verbatim>\<open>solve\<close>.
\<close>

subsection \<open>Python indexing\<close>

datatype error = IndexError

text \<open>\<^verbatim>\<open>xs[i]\<close> for a non-negative index: an index past the end raises.\<close>

definition getitem :: "'a list \<Rightarrow> nat \<Rightarrow> error + 'a" where
  "getitem xs i = (if i < length xs then Inr (xs ! i) else Inl IndexError)"

text \<open>\<^verbatim>\<open>xs[a:b]\<close> for non-negative bounds: a slice is cut at the end of the sequence, it never raises.\<close>

definition slice :: "'a list \<Rightarrow> nat \<Rightarrow> nat \<Rightarrow> 'a list" where
  "slice xs a b = take (b - a) (drop a xs)"

subsection \<open>The cost table of makeRandData\<close>

text \<open>\<^verbatim>\<open>np.iinfo(np.int32).max\<close>\<close>

definition int32_max :: int where
  "int32_max = 2147483647"

text \<open>
  \<^verbatim>\<open>costs = [0, 25, 50, 100, np.iinfo(np.int32).max /2 -1]\<close> (lines 52 and 61, the same table
  for both sides). The index is the preference rank: 0 most wanted, 1 wanted, 2 somewhat
  wanted, 3 willing, 4 not at all. \<^verbatim>\<open>/\<close> is Python 3's true division, so the last
  entry is the number 1073741822.5; the double format holds it exactly, and the table is
  modelled over the rationals.
\<close>

definition costs :: "rat list" where
  "costs = [0, 25, 50, 100, of_int int32_max / 2 - 1]"

subsection \<open>The configuration\<close>

text \<open>
  The dictionary read from the pickle, one field per key that \<^verbatim>\<open>solve\<close> reads. Slot counts
  and availabilities are integers; preference entries are values of the cost table.
\<close>

record config =
  numClasses :: nat
  numPhDs :: nat
  numMSCs :: nat
  numOther :: nat
  spots :: "int list"
  avail :: "int list"
  studentPrefs :: "rat list"
  coursePrefs :: "rat list"

subsection \<open>The flow network handed to the solver\<close>

record arc =
  tail :: nat
  head :: nat
  capacity :: int
  unit_cost :: rat

text \<open>
  The state of a \<^verbatim>\<open>SimpleMinCostFlow\<close> object before solving: the arcs in the order they
  were added (an arc's number is its position), and the calls of \<^verbatim>\<open>set_node_supply\<close> in
  order.
\<close>

record smcf =
  arcs :: "arc list"
  supplies :: "(nat \<times> int) list"

definition new_smcf :: smcf where
  "new_smcf = \<lparr>arcs = [], supplies = []\<rparr>"

definition add_arc_with_capacity_and_unit_cost :: "nat \<Rightarrow> nat \<Rightarrow> int \<Rightarrow> rat \<Rightarrow> smcf \<Rightarrow> smcf" where
  "add_arc_with_capacity_and_unit_cost t h c u net =
     net\<lparr>arcs := arcs net @ [\<lparr>tail = t, head = h, capacity = c, unit_cost = u\<rparr>]\<rparr>"

definition set_node_supply :: "nat \<Rightarrow> int \<Rightarrow> smcf \<Rightarrow> smcf" where
  "set_node_supply n s net = net\<lparr>supplies := supplies net @ [(n, s)]\<rparr>"

text \<open>\<^verbatim>\<open>smcf.supply(n)\<close>: the supply last set for the node, 0 when none was set.\<close>

definition node_supply :: "smcf \<Rightarrow> nat \<Rightarrow> int" where
  "node_supply net n = (case map_of (rev (supplies net)) n of None \<Rightarrow> 0 | Some s \<Rightarrow> s)"

text \<open>
  Modelled from the spec: the status values of the solver (section 4.3 of the
  specification); \<^verbatim>\<open>solve\<close> only compares the status with \<^verbatim>\<open>OPTIMAL\<close>.
\<close>

datatype status = OPTIMAL | INFEASIBLE | UNBALANCED | BAD_INPUT

text \<open>
  What \<^verbatim>\<open>solve\<close> reads from the object after \<^verbatim>\<open>solve_max_flow_with_min_cost()\<close>: the
  status, \<^verbatim>\<open>flow(arc)\<close> per arc number and \<^verbatim>\<open>optimal_cost()\<close>.
\<close>

record solution =
  status :: status
  flow :: "nat \<Rightarrow> int"
  optimal_cost :: rat

type_synonym solver = "smcf \<Rightarrow> solution"

subsection \<open>Building a tier's network (lines 95 to 103)\<close>

text \<open>The body of the inner loop, lines 97 to 99, for \<^verbatim>\<open>iClass\<close> over \<^verbatim>\<open>range(numClasses)\<close>.\<close>

fun class_loop :: "nat \<Rightarrow> nat \<Rightarrow> rat list \<Rightarrow> rat list \<Rightarrow> nat list \<Rightarrow> smcf \<Rightarrow> error + smcf" where
  "class_loop nGroup iStudent sPrefs cPrefs [] net = Inr net"
| "class_loop nGroup iStudent sPrefs cPrefs (iClass # rest) net =
     (case getitem sPrefs (iStudent * nGroup + iClass) of
        Inl e \<Rightarrow> Inl e
      | Inr a \<Rightarrow>
         (case getitem cPrefs (iStudent * nGroup + iClass) of
            Inl e \<Rightarrow> Inl e
          | Inr b \<Rightarrow>
             (let totalCost = a + b in
              class_loop nGroup iStudent sPrefs cPrefs rest
                (if totalCost < 1000
                 then add_arc_with_capacity_and_unit_cost iStudent (iClass + nGroup) 1 totalCost net
                 else net))))"

text \<open>The outer loop, lines 95 to 100, for \<^verbatim>\<open>iStudent\<close> over \<^verbatim>\<open>range(nGroup)\<close>.\<close>

fun student_loop :: "nat \<Rightarrow> nat \<Rightarrow> int list \<Rightarrow> rat list \<Rightarrow> rat list \<Rightarrow> nat list \<Rightarrow> smcf \<Rightarrow> error + smcf" where
  "student_loop nGroup nClasses av sPrefs cPrefs [] net = Inr net"
| "student_loop nGroup nClasses av sPrefs cPrefs (iStudent # rest) net =
     (case class_loop nGroup iStudent sPrefs cPrefs [0..<nClasses] net of
        Inl e \<Rightarrow> Inl e
      | Inr net1 \<Rightarrow>
         (case getitem av iStudent of
            Inl e \<Rightarrow> Inl e
          | Inr a \<Rightarrow> student_loop nGroup nClasses av sPrefs cPrefs rest (set_node_supply iStudent a net1)))"

text \<open>Lines 102 and 103: the demand of every course is its remaining slot count.\<close>

fun demand_loop :: "nat \<Rightarrow> int list \<Rightarrow> nat list \<Rightarrow> smcf \<Rightarrow> error + smcf" where
  "demand_loop nGroup sp [] net = Inr net"
| "demand_loop nGroup sp (iClass # rest) net =
     (case getitem sp iClass of
        Inl e \<Rightarrow> Inl e
      | Inr s \<Rightarrow> demand_loop nGroup sp rest (set_node_supply (iClass + nGroup) (- 1 * s) net))"

definition build :: "nat \<Rightarrow> nat \<Rightarrow> int list \<Rightarrow> rat list \<Rightarrow> rat list \<Rightarrow> int list \<Rightarrow> error + smcf" where
  "build nGroup nClasses av sPrefs cPrefs sp =
     (case student_loop nGroup nClasses av sPrefs cPrefs [0..<nGroup] new_smcf of
        Inl e \<Rightarrow> Inl e
      | Inr net \<Rightarrow> demand_loop nGroup sp [0..<nClasses] net)"

subsection \<open>Reading the solution (lines 107 to 125)\<close>

text \<open>One printed line \<^verbatim>\<open>TA %d assigned to course %d.  Cost = %d\<close>.\<close>

record assignment =
  ta :: nat
  course :: nat
  cost :: rat

text \<open>
  The loop of lines 110 to 121 over the arc numbers. The state is the slot counts (shared
  by all tiers), the tier's availabilities and the lines printed so far.
  \<^verbatim>\<open>smcf.head(arc)\<close>, \<^verbatim>\<open>smcf.tail(arc)\<close> and \<^verbatim>\<open>smcf.unit_cost(arc)\<close> return what the arc
  was added with. Every head is \<^verbatim>\<open>iClass+nGroup\<close> for some class, so the subtraction
  \<^verbatim>\<open>smcf.head(arc) - nGroup\<close> is not negative.
\<close>

fun extract_loop :: "nat \<Rightarrow> arc list \<Rightarrow> (nat \<Rightarrow> int) \<Rightarrow> nat list \<Rightarrow>
    int list \<times> int list \<times> assignment list \<Rightarrow> error + (int list \<times> int list \<times> assignment list)" where
  "extract_loop nGroup as f [] st = Inr st"
| "extract_loop nGroup as f (k # rest) (sp, av, out) =
     (if f k > 0 then
        (let iClass = head (as ! k) - nGroup in
         if \<not> iClass < length sp then Inl IndexError
         else if \<not> tail (as ! k) < length av then Inl IndexError
         else extract_loop nGroup as f rest
                (sp[iClass := sp ! iClass - 1],
                 av[tail (as ! k) := av ! (tail (as ! k)) - 1],
                 out @ [\<lparr>ta = tail (as ! k), course = iClass, cost = unit_cost (as ! k)\<rparr>]))
      else extract_loop nGroup as f rest (sp, av, out))"

text \<open>
  Lines 123 to 125: the students whose availability is still positive, each with
  \<^verbatim>\<open>smcf.supply(iStudent)\<close>.
\<close>

fun report_loop :: "smcf \<Rightarrow> int list \<Rightarrow> nat list \<Rightarrow> error + (nat \<times> int) list" where
  "report_loop net av [] = Inr []"
| "report_loop net av (iStudent # rest) =
     (case getitem av iStudent of
        Inl e \<Rightarrow> Inl e
      | Inr a \<Rightarrow>
         (case report_loop net av rest of
            Inl e \<Rightarrow> Inl e
          | Inr r \<Rightarrow> Inr (if a > 0 then (iStudent, node_supply net iStudent) # r else r)))"

subsection \<open>The tier loop (lines 86 to 135)\<close>

text \<open>
  What one pass of the loop body prints: the status, under \<^verbatim>\<open>OPTIMAL\<close> the total cost,
  the assignments and the students with capacity left, and in every case the slot counts
  (line 133).
\<close>

record tier_result =
  tier_status :: status
  total_cost :: "rat option"
  assignments :: "assignment list"
  more_capacity :: "(nat \<times> int) list"
  spots_after :: "int list"

text \<open>One pass of the loop body for a tier of \<^verbatim>\<open>nGroup\<close> students starting at \<^verbatim>\<open>iStart\<close>.\<close>

definition tier :: "solver \<Rightarrow> config \<Rightarrow> nat \<Rightarrow> nat \<Rightarrow> int list \<Rightarrow> error + tier_result" where
  "tier slv cfg iStart nGroup sp =
     (let av = slice (avail cfg) iStart (iStart + nGroup);
          sPrefs = slice (studentPrefs cfg) (iStart * numClasses cfg) ((iStart + nGroup) * numClasses cfg);
          cPrefs = slice (coursePrefs cfg) (iStart * numClasses cfg) ((iStart + nGroup) * numClasses cfg)
      in case build nGroup (numClasses cfg) av sPrefs cPrefs sp of
           Inl e \<Rightarrow> Inl e
         | Inr net \<Rightarrow>
            (let sol = slv net in
             if status sol = OPTIMAL then
               (case extract_loop nGroup (arcs net) (flow sol) [0..<length (arcs net)] (sp, av, []) of
                  Inl e \<Rightarrow> Inl e
                | Inr (sp1, av1, out) \<Rightarrow>
                   (case report_loop net av1 [0..<nGroup] of
                      Inl e \<Rightarrow> Inl e
                    | Inr r \<Rightarrow>
                       Inr \<lparr>tier_status = OPTIMAL, total_cost = Some (optimal_cost sol),
                            assignments = out, more_capacity = r, spots_after = sp1\<rparr>))
             else
               Inr \<lparr>tier_status = status sol, total_cost = None, assignments = [],
                    more_capacity = [], spots_after = sp\<rparr>))"

text \<open>
  The loop over \<^verbatim>\<open>numTAs\<close>. An exception ends the run; what the earlier tiers printed
  stays printed, so the result is the list of the tiers completed and the error, if any.
\<close>

fun tier_loop :: "solver \<Rightarrow> config \<Rightarrow> nat list \<Rightarrow> nat \<Rightarrow> int list \<Rightarrow> tier_result list \<times> error option" where
  "tier_loop slv cfg [] iStart sp = ([], None)"
| "tier_loop slv cfg (nGroup # rest) iStart sp =
     (case tier slv cfg iStart nGroup sp of
        Inl e \<Rightarrow> ([], Some e)
      | Inr r \<Rightarrow>
         (case tier_loop slv cfg rest (iStart + nGroup) (spots_after r) of
            (rs, e) \<Rightarrow> (r # rs, e)))"

definition solve :: "solver \<Rightarrow> config \<Rightarrow> tier_result list \<times> error option" where
  "solve slv cfg =
     (let numTAs = [numPhDs cfg, numMSCs cfg, numOther cfg]
      in tier_loop slv cfg numTAs 0 (spots cfg))"

subsection \<open>A reference solver\<close>

text \<open>
  The library solver is not part of the program. To run the model on concrete
  configurations, this simple solver pushes one unit along an arc whenever its tail still
  has supply and its head still has demand. The flow it returns respects capacities,
  supplies and demands; it is not claimed to be of minimum cost or of maximum value.
\<close>

fun greedy_loop :: "arc list \<Rightarrow> (nat \<Rightarrow> int) \<Rightarrow> int list" where
  "greedy_loop [] left = []"
| "greedy_loop (a # as) left =
     (if 0 < left (tail a) \<and> left (head a) < 0 \<and> 0 < capacity a
      then 1 # greedy_loop as (left(tail a := left (tail a) - 1, head a := left (head a) + 1))
      else 0 # greedy_loop as left)"

definition greedy_solver :: solver where
  "greedy_solver net =
     (let fl = greedy_loop (arcs net) (node_supply net) in
      \<lparr>status = (if list_all (\<lambda>a. 0 \<le> capacity a) (arcs net) then OPTIMAL else BAD_INPUT),
       flow = (\<lambda>k. if k < length fl then fl ! k else 0),
       optimal_cost = (\<Sum>p\<leftarrow>zip (arcs net) fl. of_int (snd p) * unit_cost (fst p))\<rparr>)"

text \<open>
  A second solver for running the model: it reports \<^verbatim>\<open>UNBALANCED\<close> unless the supplies
  sum to zero, and otherwise answers as the reference solver does.
\<close>

definition balanced_solver :: solver where
  "balanced_solver net =
     (if sum_list (map snd (supplies net)) = 0 then greedy_solver net
      else \<lparr>status = UNBALANCED, flow = (\<lambda>k. 0), optimal_cost = 0\<rparr>)"

section \<open>Specification\<close>

subsection \<open>What the construction loops compute\<close>

text \<open>
  The value that line 97 reads for student \<open>iStudent\<close> and class \<open>iClass\<close>, valid when
  both lookups are in range.
\<close>

definition totalCost :: "nat \<Rightarrow> rat list \<Rightarrow> rat list \<Rightarrow> nat \<Rightarrow> nat \<Rightarrow> rat" where
  "totalCost nGroup sPrefs cPrefs iStudent iClass =
     sPrefs ! (iStudent * nGroup + iClass) + cPrefs ! (iStudent * nGroup + iClass)"

text \<open>The arcs that one pass of the inner loop adds, and the lookups it makes.\<close>

definition row_arcs :: "nat \<Rightarrow> rat list \<Rightarrow> rat list \<Rightarrow> nat \<Rightarrow> nat list \<Rightarrow> arc list" where
  "row_arcs nGroup sPrefs cPrefs iStudent js =
     map (\<lambda>j. \<lparr>tail = iStudent, head = j + nGroup, capacity = 1,
               unit_cost = totalCost nGroup sPrefs cPrefs iStudent j\<rparr>)
         (filter (\<lambda>j. totalCost nGroup sPrefs cPrefs iStudent j < 1000) js)"

definition row_in_range :: "nat \<Rightarrow> rat list \<Rightarrow> rat list \<Rightarrow> nat \<Rightarrow> nat list \<Rightarrow> bool" where
  "row_in_range nGroup sPrefs cPrefs iStudent js \<longleftrightarrow>
     (\<forall>j\<in>set js. iStudent * nGroup + j < length sPrefs \<and> iStudent * nGroup + j < length cPrefs)"

text \<open>The same for the outer loop and for the whole construction.\<close>

definition tier_arcs :: "nat \<Rightarrow> nat \<Rightarrow> rat list \<Rightarrow> rat list \<Rightarrow> nat list \<Rightarrow> arc list" where
  "tier_arcs ng nc sP cP is = concat (map (\<lambda>i. row_arcs ng sP cP i [0..<nc]) is)"

definition students_in_range :: "nat \<Rightarrow> nat \<Rightarrow> int list \<Rightarrow> rat list \<Rightarrow> rat list \<Rightarrow> nat list \<Rightarrow> bool" where
  "students_in_range ng nc av sP cP is \<longleftrightarrow>
     (\<forall>i\<in>set is. row_in_range ng sP cP i [0..<nc] \<and> i < length av)"

definition build_in_range :: "nat \<Rightarrow> nat \<Rightarrow> int list \<Rightarrow> rat list \<Rightarrow> rat list \<Rightarrow> int list \<Rightarrow> bool" where
  "build_in_range ng nc av sP cP sp \<longleftrightarrow>
     students_in_range ng nc av sP cP [0..<ng] \<and> nc \<le> length sp"

definition tier_net :: "nat \<Rightarrow> nat \<Rightarrow> int list \<Rightarrow> rat list \<Rightarrow> rat list \<Rightarrow> int list \<Rightarrow> smcf" where
  "tier_net ng nc av sP cP sp =
     \<lparr>arcs = tier_arcs ng nc sP cP [0..<ng],
      supplies = map (\<lambda>i. (i, av ! i)) [0..<ng] @ map (\<lambda>j. (j + ng, - (sp ! j))) [0..<nc]\<rparr>"

text \<open>The three slices of lines 89 to 91 and the construction on them.\<close>

definition tier_avail :: "config \<Rightarrow> nat \<Rightarrow> nat \<Rightarrow> int list" where
  "tier_avail cfg iStart nGroup = slice (avail cfg) iStart (iStart + nGroup)"

definition tier_studentPrefs :: "config \<Rightarrow> nat \<Rightarrow> nat \<Rightarrow> rat list" where
  "tier_studentPrefs cfg iStart nGroup =
     slice (studentPrefs cfg) (iStart * numClasses cfg) ((iStart + nGroup) * numClasses cfg)"

definition tier_coursePrefs :: "config \<Rightarrow> nat \<Rightarrow> nat \<Rightarrow> rat list" where
  "tier_coursePrefs cfg iStart nGroup =
     slice (coursePrefs cfg) (iStart * numClasses cfg) ((iStart + nGroup) * numClasses cfg)"

definition tier_in_range :: "config \<Rightarrow> nat \<Rightarrow> nat \<Rightarrow> int list \<Rightarrow> bool" where
  "tier_in_range cfg iStart nGroup sp \<longleftrightarrow>
     build_in_range nGroup (numClasses cfg) (tier_avail cfg iStart nGroup)
       (tier_studentPrefs cfg iStart nGroup) (tier_coursePrefs cfg iStart nGroup) sp"

definition tier_network :: "config \<Rightarrow> nat \<Rightarrow> nat \<Rightarrow> int list \<Rightarrow> smcf" where
  "tier_network cfg iStart nGroup sp =
     tier_net nGroup (numClasses cfg) (tier_avail cfg iStart nGroup)
       (tier_studentPrefs cfg iStart nGroup) (tier_coursePrefs cfg iStart nGroup) sp"

subsection \<open>What the extraction loop computes\<close>

text \<open>The lines printed for the arcs with positive flow, in arc order.\<close>

definition assigned :: "nat \<Rightarrow> arc list \<Rightarrow> (nat \<Rightarrow> int) \<Rightarrow> nat list \<Rightarrow> assignment list" where
  "assigned nGroup as f ks =
     map (\<lambda>k. \<lparr>ta = tail (as ! k), course = head (as ! k) - nGroup, cost = unit_cost (as ! k)\<rparr>)
         (filter (\<lambda>k. 0 < f k) ks)"

definition tier_assigned :: "solver \<Rightarrow> config \<Rightarrow> nat \<Rightarrow> nat \<Rightarrow> int list \<Rightarrow> assignment list" where
  "tier_assigned slv cfg iStart nGroup sp =
     (let net = tier_network cfg iStart nGroup sp in
      if status (slv net) = OPTIMAL
      then assigned nGroup (arcs net) (flow (slv net)) [0..<length (arcs net)]
      else [])"

definition extract_in_range :: "nat \<Rightarrow> arc list \<Rightarrow> (nat \<Rightarrow> int) \<Rightarrow> nat list \<Rightarrow> nat \<Rightarrow> nat \<Rightarrow> bool" where
  "extract_in_range ng as f ks n m \<longleftrightarrow>
     (\<forall>k\<in>set ks. 0 < f k \<longrightarrow> head (as ! k) - ng < n \<and> tail (as ! k) < m)"

text \<open>The number of assignments of a course and of a student in a list of printed lines.\<close>

definition course_count :: "nat \<Rightarrow> assignment list \<Rightarrow> nat" where
  "course_count c out = length (filter (\<lambda>a. course a = c) out)"

definition ta_count :: "nat \<Rightarrow> assignment list \<Rightarrow> nat" where
  "ta_count i out = length (filter (\<lambda>a. ta a = i) out)"

subsection \<open>The contract of the solver\<close>

text \<open>
  A flow is feasible for a network when every arc carries between 0 and its capacity, and
  every node sends out, net of what it receives, between 0 and its supply (a node with
  positive supply) or between its supply and 0 (a node with negative supply, a demand).
  Nodes outside the arcs carry no flow, so the condition is stated for the ends of arcs.
  A solver is sound when every solution it reports as \<^verbatim>\<open>OPTIMAL\<close> is a feasible flow.
\<close>

definition outflow :: "arc list \<Rightarrow> (nat \<Rightarrow> int) \<Rightarrow> nat \<Rightarrow> int" where
  "outflow as f v = (\<Sum>k\<leftarrow>[0..<length as]. if tail (as ! k) = v then f k else 0)"

definition inflow :: "arc list \<Rightarrow> (nat \<Rightarrow> int) \<Rightarrow> nat \<Rightarrow> int" where
  "inflow as f v = (\<Sum>k\<leftarrow>[0..<length as]. if head (as ! k) = v then f k else 0)"

definition feasible_flow :: "smcf \<Rightarrow> (nat \<Rightarrow> int) \<Rightarrow> bool" where
  "feasible_flow net f \<longleftrightarrow>
     (\<forall>k<length (arcs net). 0 \<le> f k \<and> f k \<le> capacity (arcs net ! k)) \<and>
     (\<forall>v\<in>set (map tail (arcs net) @ map head (arcs net)).
        min 0 (node_supply net v) \<le> outflow (arcs net) f v - inflow (arcs net) f v \<and>
        outflow (arcs net) f v - inflow (arcs net) f v \<le> max 0 (node_supply net v))"

definition sound_solver :: "solver \<Rightarrow> bool" where
  "sound_solver slv \<longleftrightarrow> (\<forall>net. status (slv net) = OPTIMAL \<longrightarrow> feasible_flow net (flow (slv net)))"

subsection \<open>Configurations and runs\<close>

text \<open>
  The shape of the configurations that \<^verbatim>\<open>makeRandData\<close> writes: one slot count per class,
  one availability per student, \<^verbatim>\<open>numClasses * totTAs\<close> entries in each preference list,
  slot counts and availabilities not negative.
\<close>

definition well_formed :: "config \<Rightarrow> bool" where
  "well_formed cfg \<longleftrightarrow>
     (let totTAs = numPhDs cfg + numMSCs cfg + numOther cfg in
      length (spots cfg) = numClasses cfg \<and> length (avail cfg) = totTAs \<and>
      length (studentPrefs cfg) = numClasses cfg * totTAs \<and>
      length (coursePrefs cfg) = numClasses cfg * totTAs \<and>
      list_all (\<lambda>s. 0 \<le> s) (spots cfg) \<and> list_all (\<lambda>a. 0 \<le> a) (avail cfg))"




section \<open>Example configurations\<close>

text \<open>
  Small configurations on which the model is run. The costs are values of the cost table
  (\<open>costs ! 4\<close> is the cost of the rank "not at all"), except in \<open>cfg_boundary\<close>, whose
  costs sit at the threshold.
\<close>

text \<open>
  One tier of two students and three classes. The second student has cost 999 for the
  first class and cost 1000 for the second.
\<close>

definition cfg_boundary :: config where
  "cfg_boundary = \<lparr>numClasses = 3, numPhDs = 2, numMSCs = 0, numOther = 0,
     spots = [1, 1, 1], avail = [1, 1],
     studentPrefs = [0, 0, 1000, 999, 1000, 0], coursePrefs = [0, 0, 0, 0, 0, 0]\<rparr>"

text \<open>
  One tier of two students and three classes, all costs finite and the costs of the
  second student different from the costs of the first.
\<close>

definition cfg_stride :: config where
  "cfg_stride = \<lparr>numClasses = 3, numPhDs = 2, numMSCs = 0, numOther = 0,
     spots = [1, 1, 1], avail = [1, 1],
     studentPrefs = [0, 25, 50, 100, 0, 25], coursePrefs = [0, 0, 0, 0, 0, 0]\<rparr>"

text \<open>
  The same sizes. The second student is unwilling for every class, the first is willing
  for the third class only.
\<close>

definition cfg_unwilling :: config where
  "cfg_unwilling = \<lparr>numClasses = 3, numPhDs = 2, numMSCs = 0, numOther = 0,
     spots = [1, 0, 1], avail = [1, 1],
     studentPrefs = [costs ! 4, costs ! 4, 0, costs ! 4, costs ! 4, costs ! 4],
     coursePrefs = [0, 0, 0, 0, 0, 0]\<rparr>"

text \<open>A tier of two students and a single class.\<close>

definition cfg_overrun :: config where
  "cfg_overrun = \<lparr>numClasses = 1, numPhDs = 2, numMSCs = 0, numOther = 0,
     spots = [1], avail = [1, 1], studentPrefs = [0, 0], coursePrefs = [0, 0]\<rparr>"

text \<open>
  Two tiers of one student. The first offers one unit for two slots, the second two units.
\<close>

definition cfg_unbalanced :: config where
  "cfg_unbalanced = \<lparr>numClasses = 2, numPhDs = 1, numMSCs = 1, numOther = 0,
     spots = [1, 1], avail = [1, 2],
     studentPrefs = [0, 0, 0, 0], coursePrefs = [0, 0, 0, 0]\<rparr>"

text \<open>Two tiers of two students that compete for the three slots of the first class.\<close>

definition cfg_two_tiers :: config where
  "cfg_two_tiers = \<lparr>numClasses = 2, numPhDs = 2, numMSCs = 2, numOther = 0,
     spots = [3, 0], avail = [1, 1, 1, 1],
     studentPrefs = [0, 0, 0, 0, 0, 0, 0, 0], coursePrefs = [0, 0, 0, 0, 0, 0, 0, 0]\<rparr>"


section \<open>Properties of the loops\<close>

lemma row_arcs_Nil [simp]: "row_arcs ng sP cP i [] = []"
  by (simp add: row_arcs_def)

lemma row_arcs_Cons:
  "row_arcs ng sP cP i (j # js) =
     (if totalCost ng sP cP i j < 1000
      then \<lparr>tail = i, head = j + ng, capacity = 1, unit_cost = totalCost ng sP cP i j\<rparr> # row_arcs ng sP cP i js
      else row_arcs ng sP cP i js)"
  by (simp add: row_arcs_def)

lemma class_loop_Inr:
  "row_in_range ng sP cP i js \<Longrightarrow>
   class_loop ng i sP cP js net = Inr (net\<lparr>arcs := arcs net @ row_arcs ng sP cP i js\<rparr>)"
proof (induction js arbitrary: net)
  case Nil
  then show ?case by simp
next
  case (Cons j js)
  from Cons.prems have r: "row_in_range ng sP cP i js"
    and a: "i * ng + j < length sP" and b: "i * ng + j < length cP"
    by (simp_all add: row_in_range_def)
  show ?case
    using Cons.IH [OF r] a b
    by (simp add: getitem_def Let_def row_arcs_Cons totalCost_def
        add_arc_with_capacity_and_unit_cost_def)
qed

lemma class_loop_Inl:
  "\<not> row_in_range ng sP cP i js \<Longrightarrow> class_loop ng i sP cP js net = Inl IndexError"
proof (induction js arbitrary: net)
  case Nil
  then show ?case by (simp add: row_in_range_def)
next
  case (Cons j js)
  show ?case
  proof (cases "i * ng + j < length sP \<and> i * ng + j < length cP")
    case True
    with Cons.prems have "\<not> row_in_range ng sP cP i js"
      by (simp add: row_in_range_def)
    from Cons.IH [OF this] True show ?thesis
      by (simp add: getitem_def Let_def)
  next
    case False
    then show ?thesis by (auto simp add: getitem_def)
  qed
qed

lemma student_loop_Inr:
  "students_in_range ng nc av sP cP is \<Longrightarrow>
   student_loop ng nc av sP cP is net =
     Inr (net\<lparr>arcs := arcs net @ tier_arcs ng nc sP cP is,
              supplies := supplies net @ map (\<lambda>i. (i, av ! i)) is\<rparr>)"
proof (induction "is" arbitrary: net)
  case Nil
  then show ?case by (simp add: tier_arcs_def)
next
  case (Cons i "is")
  from Cons.prems have r: "students_in_range ng nc av sP cP is"
    and a: "row_in_range ng sP cP i [0..<nc]" and b: "i < length av"
    by (simp_all add: students_in_range_def)
  show ?case
    using Cons.IH [OF r] b
    by (simp add: class_loop_Inr [OF a] getitem_def tier_arcs_def set_node_supply_def)
qed

lemma student_loop_Inl:
  "\<not> students_in_range ng nc av sP cP is \<Longrightarrow>
   student_loop ng nc av sP cP is net = Inl IndexError"
proof (induction "is" arbitrary: net)
  case Nil
  then show ?case by (simp add: students_in_range_def)
next
  case (Cons i "is")
  show ?case
  proof (cases "row_in_range ng sP cP i [0..<nc]")
    case False
    then show ?thesis by (simp add: class_loop_Inl)
  next
    case True
    show ?thesis
    proof (cases "i < length av")
      case False
      then show ?thesis by (simp add: class_loop_Inr [OF True] getitem_def)
    next
      case i: True
      with True Cons.prems have "\<not> students_in_range ng nc av sP cP is"
        by (simp add: students_in_range_def)
      from Cons.IH [OF this] i show ?thesis
        by (simp add: class_loop_Inr [OF True] getitem_def)
    qed
  qed
qed

lemma demand_loop_Inr:
  "\<forall>j\<in>set js. j < length sp \<Longrightarrow>
   demand_loop ng sp js net =
     Inr (net\<lparr>supplies := supplies net @ map (\<lambda>j. (j + ng, - (sp ! j))) js\<rparr>)"
  by (induction js arbitrary: net) (simp_all add: getitem_def set_node_supply_def)

lemma demand_loop_Inl:
  "\<not> (\<forall>j\<in>set js. j < length sp) \<Longrightarrow> demand_loop ng sp js net = Inl IndexError"
  by (induction js arbitrary: net) (auto simp add: getitem_def)

lemma build_Inr:
  "build_in_range ng nc av sP cP sp \<Longrightarrow> build ng nc av sP cP sp = Inr (tier_net ng nc av sP cP sp)"
proof -
  assume h: "build_in_range ng nc av sP cP sp"
  then have s: "students_in_range ng nc av sP cP [0..<ng]"
    and d: "\<forall>j\<in>set [0..<nc]. j < length sp"
    by (auto simp add: build_in_range_def)
  show ?thesis
    by (simp add: build_def student_loop_Inr [OF s] demand_loop_Inr [OF d] new_smcf_def tier_net_def)
qed

lemma build_Inl:
  "\<not> build_in_range ng nc av sP cP sp \<Longrightarrow> build ng nc av sP cP sp = Inl IndexError"
proof (cases "students_in_range ng nc av sP cP [0..<ng]")
  case False
  then show ?thesis by (simp add: build_def student_loop_Inl)
next
  case True
  assume "\<not> build_in_range ng nc av sP cP sp"
  with True have "\<not> (\<forall>j\<in>set [0..<nc]. j < length sp)"
    by (auto simp add: build_in_range_def)
  then show ?thesis
    by (simp add: build_def student_loop_Inr [OF True] demand_loop_Inl)
qed

lemma assigned_Nil [simp]: "assigned ng as f [] = []"
  by (simp add: assigned_def)

lemma assigned_Cons:
  "assigned ng as f (k # ks) =
     (if 0 < f k
      then \<lparr>ta = tail (as ! k), course = head (as ! k) - ng, cost = unit_cost (as ! k)\<rparr> # assigned ng as f ks
      else assigned ng as f ks)"
  by (simp add: assigned_def)

lemma course_count_Cons:
  "course_count c (a # out) = (if course a = c then Suc (course_count c out) else course_count c out)"
  by (simp add: course_count_def)

lemma ta_count_Cons:
  "ta_count i (a # out) = (if ta a = i then Suc (ta_count i out) else ta_count i out)"
  by (simp add: ta_count_def)

lemma course_count_append:
  "course_count c (xs @ ys) = course_count c xs + course_count c ys"
  by (simp add: course_count_def)

lemma ta_count_append:
  "ta_count i (xs @ ys) = ta_count i xs + ta_count i ys"
  by (simp add: ta_count_def)

lemma extract_loop_Inr:
  "extract_in_range ng as f ks (length sp) (length av) \<Longrightarrow>
   \<exists>sp' av'. extract_loop ng as f ks (sp, av, out) = Inr (sp', av', out @ assigned ng as f ks)
     \<and> length sp' = length sp \<and> length av' = length av
     \<and> (\<forall>c<length sp. sp' ! c = sp ! c - int (course_count c (assigned ng as f ks)))
     \<and> (\<forall>i<length av. av' ! i = av ! i - int (ta_count i (assigned ng as f ks)))"
proof (induction ks arbitrary: sp av out)
  case Nil
  then show ?case by (simp add: course_count_def ta_count_def)
next
  case (Cons k ks)
  from Cons.prems have rest: "extract_in_range ng as f ks (length sp) (length av)"
    by (simp add: extract_in_range_def)
  show ?case
  proof (cases "0 < f k")
    case False
    with Cons.IH [OF rest, of out] show ?thesis
      by (simp add: assigned_Cons)
  next
    case True
    define c0 where "c0 = head (as ! k) - ng"
    define i0 where "i0 = tail (as ! k)"
    define a0 where "a0 = \<lparr>ta = i0, course = c0, cost = unit_cost (as ! k)\<rparr>"
    from Cons.prems True have c0: "c0 < length sp" and i0: "i0 < length av"
      by (simp_all add: extract_in_range_def c0_def i0_def)
    let ?sp1 = "sp[c0 := sp ! c0 - 1]"
    let ?av1 = "av[i0 := av ! i0 - 1]"
    from rest have "extract_in_range ng as f ks (length ?sp1) (length ?av1)"
      by simp
    from Cons.IH [OF this, of "out @ [a0]"]
    obtain sp' av' where
      e: "extract_loop ng as f ks (?sp1, ?av1, out @ [a0]) = Inr (sp', av', (out @ [a0]) @ assigned ng as f ks)"
      and ls: "length sp' = length sp" and la: "length av' = length av"
      and s: "\<forall>c<length sp. sp' ! c = ?sp1 ! c - int (course_count c (assigned ng as f ks))"
      and a: "\<forall>i<length av. av' ! i = ?av1 ! i - int (ta_count i (assigned ng as f ks))"
      by auto
    have step: "extract_loop ng as f (k # ks) (sp, av, out) = extract_loop ng as f ks (?sp1, ?av1, out @ [a0])"
      using True c0 i0 by (simp add: Let_def c0_def i0_def a0_def)
    have asg: "assigned ng as f (k # ks) = a0 # assigned ng as f ks"
      using True by (simp add: assigned_Cons a0_def c0_def i0_def)
    have s': "\<forall>c<length sp. sp' ! c = sp ! c - int (course_count c (assigned ng as f (k # ks)))"
      using s c0 by (auto simp add: asg course_count_Cons a0_def nth_list_update)
    have a': "\<forall>i<length av. av' ! i = av ! i - int (ta_count i (assigned ng as f (k # ks)))"
      using a i0 by (auto simp add: asg ta_count_Cons a0_def nth_list_update)
    from e ls la s' a' show ?thesis
      unfolding step asg by simp
  qed
qed

lemma report_loop_Inr:
  "\<forall>i\<in>set is. i < length av \<Longrightarrow> \<exists>r. report_loop net av is = Inr r"
proof (induction "is")
  case Nil
  then show ?case by simp
next
  case (Cons i "is")
  then obtain r where "report_loop net av is = Inr r" by auto
  with Cons.prems show ?case by (simp add: getitem_def)
qed

lemma in_row_arcs:
  "a \<in> set (row_arcs ng sP cP i js) \<longleftrightarrow>
     (\<exists>j\<in>set js. totalCost ng sP cP i j < 1000 \<and>
        a = \<lparr>tail = i, head = j + ng, capacity = 1, unit_cost = totalCost ng sP cP i j\<rparr>)"
  by (auto simp add: row_arcs_def)

lemma in_tier_arcs:
  "a \<in> set (tier_arcs ng nc sP cP is) \<longleftrightarrow>
     (\<exists>i\<in>set is. \<exists>j<nc. totalCost ng sP cP i j < 1000 \<and>
        a = \<lparr>tail = i, head = j + ng, capacity = 1, unit_cost = totalCost ng sP cP i j\<rparr>)"
  by (auto simp add: tier_arcs_def in_row_arcs)

lemma sum_list_zero_if: "(\<forall>k\<in>set ks. \<not> P k) \<Longrightarrow> (\<Sum>k\<leftarrow>ks. if P k then g k else (0::int)) = 0"
  by (induction ks) simp_all

lemma outflow_zero: "\<forall>a\<in>set as. tail a \<noteq> v \<Longrightarrow> outflow as f v = 0"
  unfolding outflow_def by (rule sum_list_zero_if) simp

lemma inflow_zero: "\<forall>a\<in>set as. head a \<noteq> v \<Longrightarrow> inflow as f v = 0"
  unfolding inflow_def by (rule sum_list_zero_if) simp

lemma feasible_flow_node:
  assumes "feasible_flow net f"
  shows "min 0 (node_supply net v) \<le> outflow (arcs net) f v - inflow (arcs net) f v
       \<and> outflow (arcs net) f v - inflow (arcs net) f v \<le> max 0 (node_supply net v)"
proof (cases "v \<in> set (map tail (arcs net) @ map head (arcs net))")
  case True
  with assms show ?thesis by (simp add: feasible_flow_def)
next
  case False
  then have "\<forall>a\<in>set (arcs net). tail a \<noteq> v" and "\<forall>a\<in>set (arcs net). head a \<noteq> v"
    by auto
  then show ?thesis by (simp add: outflow_zero inflow_zero)
qed

lemma course_count_le_sum:
  "\<forall>k\<in>set ks. 0 \<le> f k \<and> ng \<le> head (as ! k) \<Longrightarrow>
   int (course_count c (assigned ng as f ks)) \<le> (\<Sum>k\<leftarrow>ks. if head (as ! k) = c + ng then f k else 0)"
proof (induction ks)
  case Nil
  then show ?case by (simp add: course_count_def)
next
  case (Cons k ks)
  then have ih: "int (course_count c (assigned ng as f ks)) \<le> (\<Sum>k\<leftarrow>ks. if head (as ! k) = c + ng then f k else 0)"
    and k: "0 \<le> f k" "ng \<le> head (as ! k)"
    by simp_all
  from k(2) have eq: "head (as ! k) - ng = c \<longleftrightarrow> head (as ! k) = c + ng"
    by auto
  show ?case
    using ih k(1) by (simp add: assigned_Cons course_count_Cons eq)
qed

lemma ta_count_le_sum:
  "\<forall>k\<in>set ks. 0 \<le> f k \<Longrightarrow>
   int (ta_count i (assigned ng as f ks)) \<le> (\<Sum>k\<leftarrow>ks. if tail (as ! k) = i then f k else 0)"
proof (induction ks)
  case Nil
  then show ?case by (simp add: ta_count_def)
next
  case (Cons k ks)
  then have ih: "int (ta_count i (assigned ng as f ks)) \<le> (\<Sum>k\<leftarrow>ks. if tail (as ! k) = i then f k else 0)"
    and k: "0 \<le> f k"
    by simp_all
  show ?case
    using ih k by (simp add: assigned_Cons ta_count_Cons)
qed

lemma node_supply_tier_net_student:
  "i < ng \<Longrightarrow> node_supply (tier_net ng nc av sP cP sp) i = av ! i"
proof -
  assume i: "i < ng"
  let ?l = "map (\<lambda>i. (i, av ! i)) [0..<ng] @ map (\<lambda>j. (j + ng, - (sp ! j))) [0..<nc]"
  have d: "distinct (map fst (rev ?l))"
    by (auto simp add: rev_map [symmetric] distinct_map inj_on_def comp_def)
  have m: "(i, av ! i) \<in> set (rev ?l)"
    using i by auto
  from map_of_is_SomeI [OF d m] show ?thesis
    by (simp add: node_supply_def tier_net_def)
qed

lemma node_supply_tier_net_course:
  "j < nc \<Longrightarrow> node_supply (tier_net ng nc av sP cP sp) (j + ng) = - (sp ! j)"
proof -
  assume j: "j < nc"
  let ?l = "map (\<lambda>i. (i, av ! i)) [0..<ng] @ map (\<lambda>j. (j + ng, - (sp ! j))) [0..<nc]"
  have d: "distinct (map fst (rev ?l))"
    by (auto simp add: rev_map [symmetric] distinct_map inj_on_def comp_def)
  have m: "(j + ng, - (sp ! j)) \<in> set (rev ?l)"
    using j by auto
  from map_of_is_SomeI [OF d m] show ?thesis
    by (simp add: node_supply_def tier_net_def)
qed

lemma tier_net_arc:
  "a \<in> set (arcs (tier_net ng nc av sP cP sp)) \<Longrightarrow>
   tail a < ng \<and> ng \<le> head a \<and> head a - ng < nc \<and> capacity a = 1"
  by (auto simp add: tier_net_def in_tier_arcs)

lemma feasible_course_bound:
  assumes feas: "feasible_flow (tier_net ng nc av sP cP sp) f"
    and c: "c < nc" and nonneg: "0 \<le> sp ! c"
  shows "int (course_count c (assigned ng (arcs (tier_net ng nc av sP cP sp)) f
           [0..<length (arcs (tier_net ng nc av sP cP sp))])) \<le> sp ! c"
proof -
  let ?net = "tier_net ng nc av sP cP sp"
  let ?as = "arcs ?net"
  have arcs: "\<forall>k\<in>set [0..<length ?as]. 0 \<le> f k \<and> ng \<le> head (?as ! k)"
    using feas tier_net_arc [of _ ng nc av sP cP sp] by (auto simp add: feasible_flow_def)
  have "int (course_count c (assigned ng ?as f [0..<length ?as])) \<le> inflow ?as f (c + ng)"
    unfolding inflow_def by (rule course_count_le_sum [OF arcs])
  moreover have "outflow ?as f (c + ng) = 0"
  proof (rule outflow_zero, rule ballI)
    fix a assume "a \<in> set ?as"
    from tier_net_arc [OF this] show "tail a \<noteq> c + ng" by simp
  qed
  moreover from feasible_flow_node [OF feas, of "c + ng"]
  have "min 0 (- (sp ! c)) \<le> outflow ?as f (c + ng) - inflow ?as f (c + ng)"
    by (simp add: node_supply_tier_net_course [OF c])
  ultimately show ?thesis using nonneg by simp
qed

lemma feasible_ta_bound:
  assumes feas: "feasible_flow (tier_net ng nc av sP cP sp) f"
    and i: "i < ng" and nonneg: "0 \<le> av ! i"
  shows "int (ta_count i (assigned ng (arcs (tier_net ng nc av sP cP sp)) f
           [0..<length (arcs (tier_net ng nc av sP cP sp))])) \<le> av ! i"
proof -
  let ?net = "tier_net ng nc av sP cP sp"
  let ?as = "arcs ?net"
  have arcs: "\<forall>k\<in>set [0..<length ?as]. 0 \<le> f k"
    using feas by (auto simp add: feasible_flow_def)
  have "int (ta_count i (assigned ng ?as f [0..<length ?as])) \<le> outflow ?as f i"
    unfolding outflow_def by (rule ta_count_le_sum [OF arcs])
  moreover have "inflow ?as f i = 0"
  proof (rule inflow_zero, rule ballI)
    fix a assume "a \<in> set ?as"
    from tier_net_arc [OF this] i show "head a \<noteq> i" by simp
  qed
  moreover from feasible_flow_node [OF feas, of i]
  have "outflow ?as f i - inflow ?as f i \<le> max 0 (av ! i)"
    by (simp add: node_supply_tier_net_student [OF i])
  ultimately show ?thesis using nonneg by simp
qed

lemma tier_Inl:
  "\<not> tier_in_range cfg iStart ng sp \<Longrightarrow> tier slv cfg iStart ng sp = Inl IndexError"
  by (simp add: tier_def tier_in_range_def tier_avail_def tier_studentPrefs_def
      tier_coursePrefs_def build_Inl)

lemma tier_build:
  "tier_in_range cfg iStart ng sp \<Longrightarrow>
   build ng (numClasses cfg) (slice (avail cfg) iStart (iStart + ng))
     (slice (studentPrefs cfg) (iStart * numClasses cfg) ((iStart + ng) * numClasses cfg))
     (slice (coursePrefs cfg) (iStart * numClasses cfg) ((iStart + ng) * numClasses cfg)) sp
   = Inr (tier_network cfg iStart ng sp)"
  using build_Inr [of ng "numClasses cfg" "tier_avail cfg iStart ng"
      "tier_studentPrefs cfg iStart ng" "tier_coursePrefs cfg iStart ng" sp]
  by (simp add: tier_in_range_def tier_network_def tier_avail_def tier_studentPrefs_def
      tier_coursePrefs_def)

lemma tier_not_optimal:
  assumes "tier_in_range cfg iStart ng sp"
    and "status (slv (tier_network cfg iStart ng sp)) \<noteq> OPTIMAL"
  shows "tier slv cfg iStart ng sp =
     Inr \<lparr>tier_status = status (slv (tier_network cfg iStart ng sp)), total_cost = None,
          assignments = [], more_capacity = [], spots_after = sp\<rparr>"
  using assms(2) by (simp add: tier_def tier_build [OF assms(1)] Let_def)

lemma tier_in_range_lengths:
  "tier_in_range cfg iStart ng sp \<Longrightarrow>
   numClasses cfg \<le> length sp \<and> ng \<le> length (tier_avail cfg iStart ng)"
proof -
  assume "tier_in_range cfg iStart ng sp"
  then have "\<forall>i<ng. i < length (tier_avail cfg iStart ng)" and "numClasses cfg \<le> length sp"
    by (simp_all add: tier_in_range_def build_in_range_def students_in_range_def)
  then show ?thesis
    by (cases ng) auto
qed

lemma tier_optimal:
  assumes r: "tier_in_range cfg iStart ng sp"
    and o: "status (slv (tier_network cfg iStart ng sp)) = OPTIMAL"
  shows "\<exists>res. tier slv cfg iStart ng sp = Inr res
     \<and> tier_status res = OPTIMAL
     \<and> total_cost res = Some (optimal_cost (slv (tier_network cfg iStart ng sp)))
     \<and> assignments res = tier_assigned slv cfg iStart ng sp
     \<and> length (spots_after res) = length sp
     \<and> (\<forall>c<length sp. spots_after res ! c = sp ! c - int (course_count c (assignments res)))"
proof -
  let ?net = "tier_network cfg iStart ng sp"
  let ?av = "slice (avail cfg) iStart (iStart + ng)"
  let ?f = "flow (slv ?net)"
  from tier_in_range_lengths [OF r]
  have nc: "numClasses cfg \<le> length sp" and ngl: "ng \<le> length ?av"
    by (simp_all add: tier_avail_def)
  have "extract_in_range ng (arcs ?net) ?f [0..<length (arcs ?net)] (length sp) (length ?av)"
    unfolding extract_in_range_def
  proof (intro ballI impI)
    fix k assume "k \<in> set [0..<length (arcs ?net)]"
    then have "arcs ?net ! k \<in> set (arcs ?net)" by simp
    then have "tail (arcs ?net ! k) < ng \<and> head (arcs ?net ! k) - ng < numClasses cfg"
      unfolding tier_network_def by (auto dest: tier_net_arc)
    with nc ngl
    show "head (arcs ?net ! k) - ng < length sp \<and> tail (arcs ?net ! k) < length ?av"
      by simp
  qed
  from extract_loop_Inr [OF this, of "[]"]
  obtain sp' av' where
    e: "extract_loop ng (arcs ?net) ?f [0..<length (arcs ?net)] (sp, ?av, []) =
          Inr (sp', av', assigned ng (arcs ?net) ?f [0..<length (arcs ?net)])"
    and ls: "length sp' = length sp" and la: "length av' = length ?av"
    and s: "\<forall>c<length sp. sp' ! c = sp ! c -
              int (course_count c (assigned ng (arcs ?net) ?f [0..<length (arcs ?net)]))"
    by auto
  have "\<forall>i\<in>set [0..<ng]. i < length av'"
    using la ngl by simp
  from report_loop_Inr [OF this]
  obtain rep where rep: "report_loop ?net av' [0..<ng] = Inr rep" by blast
  show ?thesis
    using o e rep ls s
    by (simp add: tier_def tier_build [OF r] Let_def tier_assigned_def)
qed

lemma tier_Inr:
  assumes "tier slv cfg iStart ng sp = Inr res"
  shows "tier_in_range cfg iStart ng sp
     \<and> assignments res = tier_assigned slv cfg iStart ng sp
     \<and> tier_status res = status (slv (tier_network cfg iStart ng sp))
     \<and> length (spots_after res) = length sp
     \<and> (\<forall>c<length sp. spots_after res ! c = sp ! c - int (course_count c (assignments res)))"
proof -
  have r: "tier_in_range cfg iStart ng sp"
    using assms tier_Inl [of cfg iStart ng sp slv] by auto
  show ?thesis
  proof (cases "status (slv (tier_network cfg iStart ng sp)) = OPTIMAL")
    case True
    from tier_optimal [of cfg iStart ng sp slv] assms r True show ?thesis by auto
  next
    case False
    from tier_not_optimal [of cfg iStart ng sp slv] assms r False show ?thesis
      by (auto simp add: tier_assigned_def course_count_def)
  qed
qed

lemma tier_loop_nth:
  "tier_loop slv cfg ns iStart sp = (rs, e) \<Longrightarrow> t < length rs \<Longrightarrow>
   t < length ns \<and> (\<exists>sp'. tier slv cfg (iStart + sum_list (take t ns)) (ns ! t) sp' = Inr (rs ! t))"
proof (induction ns arbitrary: iStart sp rs e t)
  case Nil
  then show ?case by simp
next
  case (Cons n ns)
  show ?case
  proof (cases "tier slv cfg iStart n sp")
    case (Inl err)
    with Cons.prems show ?thesis by simp
  next
    case (Inr res)
    obtain rs' e' where rest: "tier_loop slv cfg ns (iStart + n) (spots_after res) = (rs', e')"
      by (cases "tier_loop slv cfg ns (iStart + n) (spots_after res)")
    with Cons.prems(1) Inr have rs: "rs = res # rs'" by simp
    show ?thesis
    proof (cases t)
      case 0
      with Inr rs show ?thesis by auto
    next
      case (Suc t')
      with Cons.prems(2) rs have "t' < length rs'" by simp
      from Cons.IH [OF rest this] Suc rs show ?thesis
        by (auto simp add: add.assoc)
    qed
  qed
qed

lemma greedy_loop_length [simp]: "length (greedy_loop as left) = length as"
  by (induction as arbitrary: left) simp_all

lemma greedy_loop_bounds:
  "k < length as \<Longrightarrow> \<forall>a\<in>set as. 0 \<le> capacity a \<Longrightarrow> 0 \<le> greedy_loop as left ! k \<and> greedy_loop as left ! k \<le> capacity (as ! k)"
proof (induction as arbitrary: left k)
  case Nil
  then show ?case by simp
next
  case (Cons a as)
  show ?case
  proof (cases k)
    case 0
    with Cons.prems(2) show ?thesis by simp
  next
    case (Suc k')
    with Cons.prems have "k' < length as" and "\<forall>a\<in>set as. 0 \<le> capacity a" by simp_all
    from Cons.IH [OF this] Suc show ?thesis by simp
  qed
qed

lemma greedy_loop_balance:
  "min 0 (left v) \<le> (\<Sum>p\<leftarrow>zip as (greedy_loop as left).
        (if tail (fst p) = v then snd p else 0) - (if head (fst p) = v then snd p else 0))
   \<and> (\<Sum>p\<leftarrow>zip as (greedy_loop as left).
        (if tail (fst p) = v then snd p else 0) - (if head (fst p) = v then snd p else 0)) \<le> max 0 (left v)"
proof (induction as arbitrary: left)
  case Nil
  then show ?case by simp
next
  case (Cons a as)
  show ?case
  proof (cases "0 < left (tail a) \<and> left (head a) < 0 \<and> 0 < capacity a")
    case False
    then have step: "greedy_loop (a # as) left = 0 # greedy_loop as left"
      by auto
    from Cons.IH [of left] show ?thesis
      unfolding step by simp
  next
    case True
    then have ne: "tail a \<noteq> head a" by auto
    let ?left = "left(tail a := left (tail a) - 1, head a := left (head a) + 1)"
    have step: "greedy_loop (a # as) left = 1 # greedy_loop as ?left"
      using True by simp
    define S where "S = (\<Sum>p\<leftarrow>zip as (greedy_loop as ?left).
        (if tail (fst p) = v then snd p else 0) - (if head (fst p) = v then snd p else 0))"
    have ih: "min 0 (?left v) \<le> S \<and> S \<le> max 0 (?left v)"
      unfolding S_def by (rule Cons.IH)
    have total: "(\<Sum>p\<leftarrow>zip (a # as) (greedy_loop (a # as) left).
        (if tail (fst p) = v then snd p else 0) - (if head (fst p) = v then snd p else 0))
        = (if tail a = v then 1 else 0) - (if head a = v then 1 else 0) + S"
      unfolding step S_def by simp
    consider "v = tail a" | "v = head a" | "v \<noteq> tail a" "v \<noteq> head a" by blast
    then show ?thesis
    proof cases
      case 1
      with ne have "?left v = left v - 1" by simp
      with ih True 1 ne show ?thesis
        unfolding total by simp
    next
      case 2
      with ne have "?left v = left v + 1" by simp
      with ih True 2 ne show ?thesis
        unfolding total by simp
    next
      case 3
      then have "?left v = left v" by simp
      with ih 3 show ?thesis
        unfolding total by simp
    qed
  qed
qed

lemma zip_index_map:
  "length ys = length xs \<Longrightarrow>
   map (\<lambda>k. g (xs ! k) (ys ! k)) [0..<length xs] = map (\<lambda>p. g (fst p) (snd p)) (zip xs ys)"
  by (rule nth_equalityI) simp_all

lemma greedy_solver_sound: "sound_solver greedy_solver"
  unfolding sound_solver_def
proof (intro allI impI)
  fix net
  assume "status (greedy_solver net) = OPTIMAL"
  then have caps: "\<forall>a\<in>set (arcs net). 0 \<le> capacity a"
    by (simp add: greedy_solver_def Let_def list_all_iff split: if_splits)
  let ?fl = "greedy_loop (arcs net) (node_supply net)"
  let ?f = "\<lambda>k. if k < length ?fl then ?fl ! k else 0"
  let ?zs = "zip (arcs net) ?fl"
  have f: "flow (greedy_solver net) = ?f"
    by (simp add: greedy_solver_def Let_def)
  have out: "outflow (arcs net) ?f v = (\<Sum>p\<leftarrow>?zs. if tail (fst p) = v then snd p else 0)" for v
  proof -
    have "map (\<lambda>k. if tail (arcs net ! k) = v then ?f k else 0) [0..<length (arcs net)]
        = map (\<lambda>k. if tail (arcs net ! k) = v then ?fl ! k else 0) [0..<length (arcs net)]"
      by simp
    also have "\<dots> = map (\<lambda>p. if tail (fst p) = v then snd p else 0) ?zs"
      by (rule zip_index_map) simp
    finally show ?thesis by (simp only: outflow_def)
  qed
  have inn: "inflow (arcs net) ?f v = (\<Sum>p\<leftarrow>?zs. if head (fst p) = v then snd p else 0)" for v
  proof -
    have "map (\<lambda>k. if head (arcs net ! k) = v then ?f k else 0) [0..<length (arcs net)]
        = map (\<lambda>k. if head (arcs net ! k) = v then ?fl ! k else 0) [0..<length (arcs net)]"
      by simp
    also have "\<dots> = map (\<lambda>p. if head (fst p) = v then snd p else 0) ?zs"
      by (rule zip_index_map) simp
    finally show ?thesis by (simp only: inflow_def)
  qed
  have bal: "outflow (arcs net) ?f v - inflow (arcs net) ?f v =
      (\<Sum>p\<leftarrow>?zs. (if tail (fst p) = v then snd p else 0) - (if head (fst p) = v then snd p else 0))" for v
    unfolding out inn by (rule sum_list_subtractf [symmetric])
  show "feasible_flow net (flow (greedy_solver net))"
    unfolding f feasible_flow_def
  proof (intro conjI allI impI ballI)
    fix k assume k: "k < length (arcs net)"
    from greedy_loop_bounds [OF k caps, of "node_supply net"] k
    show "0 \<le> ?f k" and "?f k \<le> capacity (arcs net ! k)"
      by simp_all
  next
    fix v
    from greedy_loop_balance [of "node_supply net" v "arcs net"]
    show "min 0 (node_supply net v) \<le> outflow (arcs net) ?f v - inflow (arcs net) ?f v"
      and "outflow (arcs net) ?f v - inflow (arcs net) ?f v \<le> max 0 (node_supply net v)"
      unfolding bal by simp_all
  qed
qed

lemma slice_nth:
  "i < length (slice xs a b) \<Longrightarrow> slice xs a b ! i = xs ! (a + i)"
proof -
  assume i: "i < length (slice xs a b)"
  then have "a \<le> length xs" by (auto simp add: slice_def)
  with i show ?thesis by (simp add: slice_def)
qed

lemma tier_course_bound:
  assumes snd: "sound_solver slv"
    and t: "tier slv cfg iStart ng sp = Inr res"
    and c: "c < numClasses cfg" and nonneg: "0 \<le> sp ! c"
  shows "int (course_count c (assignments res)) \<le> sp ! c"
proof (cases "status (slv (tier_network cfg iStart ng sp)) = OPTIMAL")
  case False
  with tier_Inr [OF t] nonneg show ?thesis
    by (simp add: tier_assigned_def course_count_def)
next
  case True
  with snd have "feasible_flow (tier_network cfg iStart ng sp) (flow (slv (tier_network cfg iStart ng sp)))"
    by (simp add: sound_solver_def)
  from feasible_course_bound [OF this [unfolded tier_network_def] c nonneg] tier_Inr [OF t] True
  show ?thesis
    by (simp add: tier_assigned_def tier_network_def Let_def)
qed

lemma tier_ta_bound:
  assumes snd: "sound_solver slv"
    and t: "tier slv cfg iStart ng sp = Inr res"
    and i: "i < ng" and nonneg: "0 \<le> avail cfg ! (iStart + i)"
  shows "int (ta_count i (assignments res)) \<le> avail cfg ! (iStart + i)"
proof (cases "status (slv (tier_network cfg iStart ng sp)) = OPTIMAL")
  case False
  with tier_Inr [OF t] nonneg show ?thesis
    by (simp add: tier_assigned_def ta_count_def)
next
  case True
  from tier_Inr [OF t] have r: "tier_in_range cfg iStart ng sp" by simp
  from tier_in_range_lengths [OF r] i have "i < length (tier_avail cfg iStart ng)"
    by simp
  then have av: "tier_avail cfg iStart ng ! i = avail cfg ! (iStart + i)"
    unfolding tier_avail_def by (rule slice_nth)
  from True snd have "feasible_flow (tier_network cfg iStart ng sp) (flow (slv (tier_network cfg iStart ng sp)))"
    by (simp add: sound_solver_def)
  from feasible_ta_bound [OF this [unfolded tier_network_def] i] nonneg av tier_Inr [OF t] True
  show ?thesis
    by (simp add: tier_assigned_def tier_network_def Let_def)
qed

lemma tier_loop_course_bound:
  assumes snd: "sound_solver slv"
  shows "tier_loop slv cfg ns iStart sp = (rs, e) \<Longrightarrow> c < numClasses cfg \<Longrightarrow> 0 \<le> sp ! c \<Longrightarrow>
     int (course_count c (concat (map assignments rs))) \<le> sp ! c
     \<and> (\<forall>r\<in>set rs. 0 \<le> spots_after r ! c)"
proof (induction ns arbitrary: iStart sp rs e)
  case Nil
  then show ?case by (simp add: course_count_def)
next
  case (Cons n ns)
  show ?case
  proof (cases "tier slv cfg iStart n sp")
    case (Inl err)
    with Cons.prems show ?thesis by (simp add: course_count_def)
  next
    case (Inr res)
    obtain rs' e' where rest: "tier_loop slv cfg ns (iStart + n) (spots_after res) = (rs', e')"
      by (cases "tier_loop slv cfg ns (iStart + n) (spots_after res)")
    with Cons.prems(1) Inr have rs: "rs = res # rs'" by simp
    from tier_Inr [OF Inr] have r: "tier_in_range cfg iStart n sp"
      and upd: "\<forall>c<length sp. spots_after res ! c = sp ! c - int (course_count c (assignments res))"
      by simp_all
    from tier_in_range_lengths [OF r] Cons.prems(2) have "c < length sp" by simp
    with upd have after: "spots_after res ! c = sp ! c - int (course_count c (assignments res))"
      by simp
    from tier_course_bound [OF snd Inr Cons.prems(2,3)]
    have here: "int (course_count c (assignments res)) \<le> sp ! c" .
    with after have nn: "0 \<le> spots_after res ! c" by simp
    from Cons.IH [OF rest Cons.prems(2) nn]
    have later: "int (course_count c (concat (map assignments rs'))) \<le> spots_after res ! c"
      and all: "\<forall>r\<in>set rs'. 0 \<le> spots_after r ! c"
      by simp_all
    from later after nn all show ?thesis
      by (simp add: rs course_count_append)
  qed
qed

lemma row_in_range_small_tier:
  assumes "ng \<le> nc" and "length sP = ng * nc" and "length cP = ng * nc" and "i < ng"
  shows "row_in_range ng sP cP i [0..<nc]"
proof -
  have a: "i * ng \<le> i * nc"
    using assms(1) by (rule mult_le_mono2)
  have "Suc i * nc \<le> ng * nc"
    using assms(4) by (intro mult_le_mono1) simp
  then have b: "i * nc + nc \<le> ng * nc"
    by simp
  show ?thesis
    unfolding row_in_range_def
  proof
    fix j assume "j \<in> set [0..<nc]"
    then have "j < nc" by simp
    with a b have "i * ng + j < ng * nc" by linarith
    then show "i * ng + j < length sP \<and> i * ng + j < length cP"
      by (simp add: assms(2,3))
  qed
qed




lemma arc_iff_read_below_threshold:
  assumes "build nGroup nClasses av sPrefs cPrefs sp = Inr net"
    and "iStudent < nGroup" and "iClass < nClasses"
  shows "(\<exists>a\<in>set (arcs net). tail a = iStudent \<and> head a = iClass + nGroup)
           \<longleftrightarrow> totalCost nGroup sPrefs cPrefs iStudent iClass < 1000"
proof -
  have r: "build_in_range nGroup nClasses av sPrefs cPrefs sp"
    using assms(1) build_Inl [of nGroup nClasses av sPrefs cPrefs sp] by auto
  from build_Inr [OF r] assms(1) have net: "net = tier_net nGroup nClasses av sPrefs cPrefs sp"
    by simp
  have m: "a \<in> set (arcs net) \<longleftrightarrow>
     (\<exists>i<nGroup. \<exists>j<nClasses. totalCost nGroup sPrefs cPrefs i j < 1000 \<and>
        a = \<lparr>tail = i, head = j + nGroup, capacity = 1, unit_cost = totalCost nGroup sPrefs cPrefs i j\<rparr>)" for a
    by (auto simp add: net tier_net_def in_tier_arcs)
  show ?thesis
  proof
    assume "\<exists>a\<in>set (arcs net). tail a = iStudent \<and> head a = iClass + nGroup"
    then obtain a where a: "a \<in> set (arcs net)" and e: "tail a = iStudent" "head a = iClass + nGroup"
      by blast
    from a obtain i j where "totalCost nGroup sPrefs cPrefs i j < 1000"
      and "a = \<lparr>tail = i, head = j + nGroup, capacity = 1, unit_cost = totalCost nGroup sPrefs cPrefs i j\<rparr>"
      unfolding m by blast
    with e show "totalCost nGroup sPrefs cPrefs iStudent iClass < 1000"
      by simp
  next
    assume c: "totalCost nGroup sPrefs cPrefs iStudent iClass < 1000"
    let ?a = "\<lparr>tail = iStudent, head = iClass + nGroup, capacity = 1,
               unit_cost = totalCost nGroup sPrefs cPrefs iStudent iClass\<rparr>"
    from c assms(2,3) have "?a \<in> set (arcs net)"
      unfolding m by blast
    then show "\<exists>a\<in>set (arcs net). tail a = iStudent \<and> head a = iClass + nGroup"
      by (intro bexI [of _ ?a]) simp_all
  qed
qed

lemma costed_total_integer:
  "a \<in> set costs \<Longrightarrow> b \<in> set costs \<Longrightarrow> a + b < 1000 \<Longrightarrow> a + b \<in> \<int>"
  by (auto simp add: costs_def int32_max_def)



section \<open>The claims\<close>

subsection \<open>The cost table\<close>

text \<open>
  C9, as stated: every rank has a non-negative integer cost, strictly increasing as
  preference decreases, and the cost of the rank "not at all" is at least half of the
  32-bit signed range. The table's last entry is \<open>2147483647 / 2 - 1\<close>: it is not an
  integer, and it is below half of the largest 32-bit signed integer.
\<close>

theorem sentinel_fractional_and_below_half:
  "costs ! 4 \<notin> \<int> \<and> costs ! 4 < of_int int32_max / 2"
proof -
  have v: "costs ! 4 = 2147483645 / 2"
    by (simp add: costs_def int32_max_def)
  have "(2147483645 / 2 :: rat) \<notin> \<int>"
  proof
    assume "(2147483645 / 2 :: rat) \<in> \<int>"
    then obtain z :: int where "2147483645 / 2 = (of_int z :: rat)"
      by (auto elim: Ints_cases)
    then have "(of_int (2 * z) :: rat) = of_int 2147483645"
      by simp
    then have "2 * z = 2147483645"
      by (simp only: of_int_eq_iff)
    then show False by presburger
  qed
  then show ?thesis
    by (simp add: v int32_max_def)
qed

text \<open>
  C9, amended: the ranks most wanted, wanted, somewhat wanted and willing cost the
  non-negative integers 0, 25, 50 and 100; the rank "not at all" costs
  \<open>2147483647 / 2 - 1 = 1073741822.5\<close>, which is one below half of the largest 32-bit
  signed integer, so that two of them sum to less than that integer; all costs are
  non-negative and strictly increasing as preference decreases.
\<close>

theorem costs_table:
  "costs = [0, 25, 50, 100, 2147483645 / 2]
   \<and> costs ! 4 = of_int int32_max / 2 - 1
   \<and> sorted_wrt (<) costs
   \<and> list_all (\<lambda>c. 0 \<le> c) costs
   \<and> list_all (\<lambda>c. c \<in> \<int>) (take 4 costs)
   \<and> 2 * costs ! 4 < of_int int32_max"
  by (simp add: costs_def int32_max_def)

subsection \<open>Network construction\<close>

text \<open>
  C8, as stated: a pair whose combined cost is exactly 999 gets an arc and a pair whose
  combined cost is exactly 1000 gets none. The comparison of line 98 is strict: a pair
  has an arc exactly when the value read at line 97 is below 1000
  (\<open>arc_iff_read_below_threshold\<close>). The value is read at position \<open>i * nGroup + j\<close>, though,
  and not at the pair's position \<open>i * numClasses + j\<close>. In the first tier of
  \<open>cfg_boundary\<close> the pair of student 1 and class 0 has combined cost 999 and no arc
  (none from node 1 to node 2), and the pair of student 1 and class 1 has combined cost
  1000 and an arc (from node 1 to node 3), of unit cost 999.
\<close>

theorem boundary_pair_misjudged:
  "build (numPhDs cfg_boundary) (numClasses cfg_boundary) (tier_avail cfg_boundary 0 2)
     (tier_studentPrefs cfg_boundary 0 2) (tier_coursePrefs cfg_boundary 0 2) (spots cfg_boundary) =
     Inr \<lparr>arcs = [\<lparr>tail = 0, head = 2, capacity = 1, unit_cost = 0\<rparr>,
                  \<lparr>tail = 0, head = 3, capacity = 1, unit_cost = 0\<rparr>,
                  \<lparr>tail = 1, head = 3, capacity = 1, unit_cost = 999\<rparr>],
          supplies = [(0, 1), (1, 1), (2, - 1), (3, - 1), (4, - 1)]\<rparr>
   \<and> well_formed cfg_boundary
   \<and> tier_studentPrefs cfg_boundary 0 2 ! (1 * numClasses cfg_boundary + 0)
       + tier_coursePrefs cfg_boundary 0 2 ! (1 * numClasses cfg_boundary + 0) = 999
   \<and> tier_studentPrefs cfg_boundary 0 2 ! (1 * numClasses cfg_boundary + 1)
       + tier_coursePrefs cfg_boundary 0 2 ! (1 * numClasses cfg_boundary + 1) = 1000"
  by code_simp

text \<open>
  C1, as stated: the unit cost of the arc of student \<open>i\<close> and class \<open>j\<close> is read from the
  tier's slices at position \<open>i * numClasses + j\<close>. Line 97 reads position
  \<open>i * nGroup + j\<close>. In the first tier of \<open>cfg_stride\<close> (two students, three classes) the
  arc of student 1 and class 0 has unit cost 50, the entry at position 2, which is the
  cost of student 0 for class 2; the entry of the pair itself, at position 3, is 100.
\<close>

theorem arc_cost_read_at_stride_nGroup:
  "build (numPhDs cfg_stride) (numClasses cfg_stride) (tier_avail cfg_stride 0 2)
     (tier_studentPrefs cfg_stride 0 2) (tier_coursePrefs cfg_stride 0 2) (spots cfg_stride) =
     Inr \<lparr>arcs = [\<lparr>tail = 0, head = 2, capacity = 1, unit_cost = 0\<rparr>,
                  \<lparr>tail = 0, head = 3, capacity = 1, unit_cost = 25\<rparr>,
                  \<lparr>tail = 0, head = 4, capacity = 1, unit_cost = 50\<rparr>,
                  \<lparr>tail = 1, head = 2, capacity = 1, unit_cost = 50\<rparr>,
                  \<lparr>tail = 1, head = 3, capacity = 1, unit_cost = 100\<rparr>,
                  \<lparr>tail = 1, head = 4, capacity = 1, unit_cost = 0\<rparr>],
          supplies = [(0, 1), (1, 1), (2, - 1), (3, - 1), (4, - 1)]\<rparr>
   \<and> tier_studentPrefs cfg_stride 0 2 ! (1 * numClasses cfg_stride + 0)
       + tier_coursePrefs cfg_stride 0 2 ! (1 * numClasses cfg_stride + 0) = 100
   \<and> tier_studentPrefs cfg_stride 0 2 ! (1 * numPhDs cfg_stride + 0)
       + tier_coursePrefs cfg_stride 0 2 ! (1 * numPhDs cfg_stride + 0) = 50"
  by code_simp

text \<open>
  C10: there is a configuration of the shape \<^verbatim>\<open>makeRandData\<close> writes, with a tier larger
  than the number of classes, on which the lookup at \<open>iStudent * nGroup + iClass\<close> is past
  the end of the tier's slice and the run stops with an index error before any tier is
  completed, whatever the solver; and for every tier of at most \<open>nClasses\<close> students whose
  slices have \<open>nGroup * nClasses\<close> entries, the inner loop of every student makes its
  lookups in range and returns the network with that student's arcs added.
\<close>

theorem pref_lookup_bounds:
  "(well_formed cfg_overrun \<and> numClasses cfg_overrun < numPhDs cfg_overrun
      \<and> length (tier_studentPrefs cfg_overrun 0 2) = 2 * 1
      \<and> getitem (tier_studentPrefs cfg_overrun 0 2) (1 * 2 + 0) = Inl IndexError
      \<and> solve slv cfg_overrun = ([], Some IndexError))
   \<and> (nGroup \<le> nClasses \<longrightarrow> length sPrefs = nGroup * nClasses \<longrightarrow>
        length cPrefs = nGroup * nClasses \<longrightarrow> iStudent < nGroup \<longrightarrow>
        class_loop nGroup iStudent sPrefs cPrefs [0..<nClasses] net =
          Inr (net\<lparr>arcs := arcs net @ row_arcs nGroup sPrefs cPrefs iStudent [0..<nClasses]\<rparr>))"
proof -
  have w: "well_formed cfg_overrun" by code_simp
  have n: "numClasses cfg_overrun < numPhDs cfg_overrun" by code_simp
  have l: "length (tier_studentPrefs cfg_overrun 0 2) = 2 * 1" by code_simp
  have g: "getitem (tier_studentPrefs cfg_overrun 0 2) (1 * 2 + 0) = Inl IndexError" by code_simp
  have "\<not> tier_in_range cfg_overrun 0 2 [1]" by code_simp
  then have "tier slv cfg_overrun 0 2 [1] = Inl IndexError"
    by (rule tier_Inl)
  then have s: "solve slv cfg_overrun = ([], Some IndexError)"
    by (simp add: solve_def cfg_overrun_def)
  from w n l g s show ?thesis
    by (simp add: class_loop_Inr row_in_range_small_tier)
qed

text \<open>The inner loop of the second student of \<open>cfg_stride\<close>, a tier of two for three classes.\<close>

theorem pref_lookup_bounds_witness:
  "(2::nat) \<le> 3 \<and> length (tier_studentPrefs cfg_stride 0 2) = 2 * 3
   \<and> length (tier_coursePrefs cfg_stride 0 2) = 2 * 3 \<and> (1::nat) < 2
   \<and> class_loop 2 1 (tier_studentPrefs cfg_stride 0 2) (tier_coursePrefs cfg_stride 0 2) [0..<3] new_smcf =
       Inr \<lparr>arcs = [\<lparr>tail = 1, head = 2, capacity = 1, unit_cost = 50\<rparr>,
                    \<lparr>tail = 1, head = 3, capacity = 1, unit_cost = 100\<rparr>,
                    \<lparr>tail = 1, head = 4, capacity = 1, unit_cost = 0\<rparr>], supplies = []\<rparr>"
proof -
  have a: "(2::nat) \<le> 3" and d: "(1::nat) < 2" by simp_all
  have b: "length (tier_studentPrefs cfg_stride 0 2) = 2 * 3"
    and c: "length (tier_coursePrefs cfg_stride 0 2) = 2 * 3"
    by code_simp+
  have r: "new_smcf\<lparr>arcs := arcs new_smcf @
        row_arcs 2 (tier_studentPrefs cfg_stride 0 2) (tier_coursePrefs cfg_stride 0 2) 1 [0..<3]\<rparr>
     = \<lparr>arcs = [\<lparr>tail = 1, head = 2, capacity = 1, unit_cost = 50\<rparr>,
                    \<lparr>tail = 1, head = 3, capacity = 1, unit_cost = 100\<rparr>,
                    \<lparr>tail = 1, head = 4, capacity = 1, unit_cost = 0\<rparr>], supplies = []\<rparr>"
    by code_simp
  from pref_lookup_bounds [of greedy_solver 2 3 "tier_studentPrefs cfg_stride 0 2"
      "tier_coursePrefs cfg_stride 0 2" 1 new_smcf] a b c d r
  show ?thesis by simp
qed

subsection \<open>Assignments\<close>

text \<open>
  C2, as stated: no assignment is produced for a pair whose combined cost, the student's
  cost for the class plus the class's cost for the student, is 1000 or more. On
  \<open>cfg_unwilling\<close> student 1 is unwilling for class 0, the entries of the pair (position
  \<open>1 * numClasses + 0\<close>) sum to more than 1000, and the run assigns student 1 to class 0:
  the arc was built from the entries at position \<open>1 * nGroup + 0\<close>, which belong to
  student 0 and class 2.
\<close>

theorem unwilling_pair_assigned:
  "solve greedy_solver cfg_unwilling =
     ([\<lparr>tier_status = OPTIMAL, total_cost = Some 0,
        assignments = [\<lparr>ta = 0, course = 2, cost = 0\<rparr>, \<lparr>ta = 1, course = 0, cost = 0\<rparr>],
        more_capacity = [], spots_after = [0, 0, 0]\<rparr>,
       \<lparr>tier_status = OPTIMAL, total_cost = Some 0, assignments = [],
        more_capacity = [], spots_after = [0, 0, 0]\<rparr>,
       \<lparr>tier_status = OPTIMAL, total_cost = Some 0, assignments = [],
        more_capacity = [], spots_after = [0, 0, 0]\<rparr>], None)
   \<and> 1000 \<le> studentPrefs cfg_unwilling ! ((0 + 1) * numClasses cfg_unwilling + 0)
            + coursePrefs cfg_unwilling ! ((0 + 1) * numClasses cfg_unwilling + 0)"
  by code_simp

text \<open>
  C3: with a solver whose \<^verbatim>\<open>OPTIMAL\<close> solutions are feasible flows, for every course
  whose slot count in the configuration is not negative, the number of assignments to the
  course in all tiers of the run together is at most that slot count, and the slot count
  printed after every tier is not negative.
\<close>

theorem course_slots_never_exceeded:
  assumes "sound_solver slv" and "solve slv cfg = (rs, e)"
    and "c < numClasses cfg" and "c < length (spots cfg)" and "0 \<le> spots cfg ! c"
  shows "int (course_count c (concat (map assignments rs))) \<le> spots cfg ! c
       \<and> (\<forall>r\<in>set rs. 0 \<le> spots_after r ! c)"
proof -
  from assms(2) have "tier_loop slv cfg [numPhDs cfg, numMSCs cfg, numOther cfg] 0 (spots cfg) = (rs, e)"
    by (simp add: solve_def)
  from tier_loop_course_bound [OF assms(1) this assms(3,5)] show ?thesis .
qed

text \<open>
  On \<open>cfg_two_tiers\<close> the first class has three slots: the first tier takes two of them,
  the second tier the last one.
\<close>

theorem course_slots_never_exceeded_witness:
  "sound_solver greedy_solver
   \<and> solve greedy_solver cfg_two_tiers =
      ([\<lparr>tier_status = OPTIMAL, total_cost = Some 0,
         assignments = [\<lparr>ta = 0, course = 0, cost = 0\<rparr>, \<lparr>ta = 1, course = 0, cost = 0\<rparr>],
         more_capacity = [], spots_after = [1, 0]\<rparr>,
        \<lparr>tier_status = OPTIMAL, total_cost = Some 0,
         assignments = [\<lparr>ta = 0, course = 0, cost = 0\<rparr>],
         more_capacity = [(1, 1)], spots_after = [0, 0]\<rparr>,
        \<lparr>tier_status = OPTIMAL, total_cost = Some 0, assignments = [],
         more_capacity = [], spots_after = [0, 0]\<rparr>], None)
   \<and> (0::nat) < numClasses cfg_two_tiers \<and> (0::nat) < length (spots cfg_two_tiers)
   \<and> 0 \<le> spots cfg_two_tiers ! 0
   \<and> course_count 0 (concat (map assignments (fst (solve greedy_solver cfg_two_tiers)))) = 3
   \<and> int (course_count 0 (concat (map assignments (fst (solve greedy_solver cfg_two_tiers)))))
        \<le> spots cfg_two_tiers ! 0
   \<and> list_all (\<lambda>r. 0 \<le> spots_after r ! 0) (fst (solve greedy_solver cfg_two_tiers))"
proof -
  let ?rs = "[\<lparr>tier_status = OPTIMAL, total_cost = Some 0,
         assignments = [\<lparr>ta = 0, course = 0, cost = 0\<rparr>, \<lparr>ta = 1, course = 0, cost = 0\<rparr>],
         more_capacity = [], spots_after = [1, 0]\<rparr>,
        \<lparr>tier_status = OPTIMAL, total_cost = Some 0,
         assignments = [\<lparr>ta = 0, course = 0, cost = 0\<rparr>],
         more_capacity = [(1, 1)], spots_after = [0, 0]\<rparr>,
        \<lparr>tier_status = OPTIMAL, total_cost = Some 0, assignments = [],
         more_capacity = [], spots_after = [0, 0]\<rparr>]"
  have run: "solve greedy_solver cfg_two_tiers = (?rs, None)"
    by code_simp
  have c: "(0::nat) < numClasses cfg_two_tiers" and l: "(0::nat) < length (spots cfg_two_tiers)"
    and s: "0 \<le> spots cfg_two_tiers ! 0"
    by code_simp+
  have n: "course_count 0 (concat (map assignments ?rs)) = 3"
    by code_simp
  from course_slots_never_exceeded [OF greedy_solver_sound run c l s] greedy_solver_sound run c l s n
  show ?thesis
    by (simp add: list_all_iff)
qed

text \<open>
  C4: with a solver whose \<^verbatim>\<open>OPTIMAL\<close> solutions are feasible flows, for every tier that
  the run completed and every student of the tier whose availability in the configuration
  is not negative, the number of assignments of the student is at most that availability.
  A student belongs to one tier only, so these are all the assignments of the student in
  the run.
\<close>

theorem ta_availability_never_exceeded:
  assumes "sound_solver slv" and "solve slv cfg = (rs, e)"
    and "t < length rs" and "i < [numPhDs cfg, numMSCs cfg, numOther cfg] ! t"
    and "0 \<le> avail cfg ! (sum_list (take t [numPhDs cfg, numMSCs cfg, numOther cfg]) + i)"
  shows "int (ta_count i (assignments (rs ! t)))
           \<le> avail cfg ! (sum_list (take t [numPhDs cfg, numMSCs cfg, numOther cfg]) + i)"
proof -
  let ?ns = "[numPhDs cfg, numMSCs cfg, numOther cfg]"
  from assms(2) have "tier_loop slv cfg ?ns 0 (spots cfg) = (rs, e)"
    by (simp add: solve_def)
  from tier_loop_nth [OF this assms(3)]
  obtain sp' where "tier slv cfg (0 + sum_list (take t ?ns)) (?ns ! t) sp' = Inr (rs ! t)"
    by blast
  then have "tier slv cfg (sum_list (take t ?ns)) (?ns ! t) sp' = Inr (rs ! t)"
    by simp
  from tier_ta_bound [OF assms(1) this assms(4,5)] show ?thesis .
qed

text \<open>The first student of the second tier of \<open>cfg_two_tiers\<close>: availability 1, one assignment.\<close>

theorem ta_availability_never_exceeded_witness:
  "sound_solver greedy_solver
   \<and> (1::nat) < length (fst (solve greedy_solver cfg_two_tiers))
   \<and> (0::nat) < [numPhDs cfg_two_tiers, numMSCs cfg_two_tiers, numOther cfg_two_tiers] ! 1
   \<and> 0 \<le> avail cfg_two_tiers !
        (sum_list (take 1 [numPhDs cfg_two_tiers, numMSCs cfg_two_tiers, numOther cfg_two_tiers]) + 0)
   \<and> ta_count 0 (assignments (fst (solve greedy_solver cfg_two_tiers) ! 1)) = 1
   \<and> int (ta_count 0 (assignments (fst (solve greedy_solver cfg_two_tiers) ! 1)))
        \<le> avail cfg_two_tiers !
        (sum_list (take 1 [numPhDs cfg_two_tiers, numMSCs cfg_two_tiers, numOther cfg_two_tiers]) + 0)"
proof -
  let ?rs = "[\<lparr>tier_status = OPTIMAL, total_cost = Some 0,
         assignments = [\<lparr>ta = 0, course = 0, cost = 0\<rparr>, \<lparr>ta = 1, course = 0, cost = 0\<rparr>],
         more_capacity = [], spots_after = [1, 0]\<rparr>,
        \<lparr>tier_status = OPTIMAL, total_cost = Some 0,
         assignments = [\<lparr>ta = 0, course = 0, cost = 0\<rparr>],
         more_capacity = [(1, 1)], spots_after = [0, 0]\<rparr>,
        \<lparr>tier_status = OPTIMAL, total_cost = Some 0, assignments = [],
         more_capacity = [], spots_after = [0, 0]\<rparr>]"
  let ?ns = "[numPhDs cfg_two_tiers, numMSCs cfg_two_tiers, numOther cfg_two_tiers]"
  have run: "solve greedy_solver cfg_two_tiers = (?rs, None)"
    by code_simp
  have t: "1 < length ?rs" by simp
  have i: "0 < ?ns ! 1" by code_simp
  have a: "0 \<le> avail cfg_two_tiers ! (sum_list (take 1 ?ns) + 0)" by code_simp
  have n: "ta_count 0 (assignments (?rs ! 1)) = 1" by code_simp
  from ta_availability_never_exceeded [OF greedy_solver_sound run t i a] greedy_solver_sound run i a n
  show ?thesis by simp
qed

subsection \<open>Failures\<close>




text \<open>
  C7: when the solver's status for a tier's network is not \<^verbatim>\<open>OPTIMAL\<close>, the tier's result
  has no assignment and the slot counts it leaves are the slot counts it was given, and
  the loop goes on to the remaining tiers with these slot counts and the next start
  index.
\<close>

theorem failed_tier_carries_forward:
  assumes "build nGroup (numClasses cfg) (tier_avail cfg iStart nGroup)
             (tier_studentPrefs cfg iStart nGroup) (tier_coursePrefs cfg iStart nGroup) sp = Inr net"
    and "status (slv net) \<noteq> OPTIMAL"
  shows "tier slv cfg iStart nGroup sp =
           Inr \<lparr>tier_status = status (slv net), total_cost = None, assignments = [],
                more_capacity = [], spots_after = sp\<rparr>
       \<and> tier_loop slv cfg (nGroup # rest) iStart sp =
           (\<lparr>tier_status = status (slv net), total_cost = None, assignments = [],
             more_capacity = [], spots_after = sp\<rparr>
              # fst (tier_loop slv cfg rest (iStart + nGroup) sp),
            snd (tier_loop slv cfg rest (iStart + nGroup) sp))"
proof -
  have t: "tier slv cfg iStart nGroup sp =
           Inr \<lparr>tier_status = status (slv net), total_cost = None, assignments = [],
                more_capacity = [], spots_after = sp\<rparr>"
    using assms
    by (simp add: tier_def Let_def tier_avail_def tier_studentPrefs_def tier_coursePrefs_def)
  show ?thesis
    by (simp add: t split: prod.split)
qed

text \<open>
  On \<open>cfg_unbalanced\<close> with the solver that insists on balance, the first tier is
  reported \<^verbatim>\<open>UNBALANCED\<close> and changes nothing; the second tier is solved and fills both
  slots.
\<close>

theorem failed_tier_carries_forward_witness:
  "build 1 (numClasses cfg_unbalanced) (tier_avail cfg_unbalanced 0 1)
     (tier_studentPrefs cfg_unbalanced 0 1) (tier_coursePrefs cfg_unbalanced 0 1) [1, 1] =
     Inr \<lparr>arcs = [\<lparr>tail = 0, head = 1, capacity = 1, unit_cost = 0\<rparr>,
                  \<lparr>tail = 0, head = 2, capacity = 1, unit_cost = 0\<rparr>],
          supplies = [(0, 1), (1, - 1), (2, - 1)]\<rparr>
   \<and> status (balanced_solver \<lparr>arcs = [\<lparr>tail = 0, head = 1, capacity = 1, unit_cost = 0\<rparr>,
                  \<lparr>tail = 0, head = 2, capacity = 1, unit_cost = 0\<rparr>],
          supplies = [(0, 1), (1, - 1), (2, - 1)]\<rparr>) = UNBALANCED
   \<and> tier balanced_solver cfg_unbalanced 0 1 [1, 1] =
       Inr \<lparr>tier_status = UNBALANCED, total_cost = None, assignments = [],
            more_capacity = [], spots_after = [1, 1]\<rparr>
   \<and> tier_loop balanced_solver cfg_unbalanced [1, 1, 0] 0 [1, 1] =
       ([\<lparr>tier_status = UNBALANCED, total_cost = None, assignments = [],
            more_capacity = [], spots_after = [1, 1]\<rparr>,
         \<lparr>tier_status = OPTIMAL, total_cost = Some 0,
            assignments = [\<lparr>ta = 0, course = 0, cost = 0\<rparr>, \<lparr>ta = 0, course = 1, cost = 0\<rparr>],
            more_capacity = [], spots_after = [0, 0]\<rparr>,
         \<lparr>tier_status = OPTIMAL, total_cost = Some 0, assignments = [],
            more_capacity = [], spots_after = [0, 0]\<rparr>], None)"
proof -
  let ?net = "\<lparr>arcs = [\<lparr>tail = 0, head = 1, capacity = 1, unit_cost = 0\<rparr>,
                  \<lparr>tail = 0, head = 2, capacity = 1, unit_cost = 0\<rparr>],
          supplies = [(0, 1), (1, - 1), (2, - 1)]\<rparr>"
  have b: "build 1 (numClasses cfg_unbalanced) (tier_avail cfg_unbalanced 0 1)
     (tier_studentPrefs cfg_unbalanced 0 1) (tier_coursePrefs cfg_unbalanced 0 1) [1, 1] = Inr ?net"
    by code_simp
  have s: "status (balanced_solver ?net) = UNBALANCED"
    by code_simp
  then have n: "status (balanced_solver ?net) \<noteq> OPTIMAL"
    by simp
  have rest: "tier_loop balanced_solver cfg_unbalanced [1, 0] (0 + 1) [1, 1] =
       ([\<lparr>tier_status = OPTIMAL, total_cost = Some 0,
            assignments = [\<lparr>ta = 0, course = 0, cost = 0\<rparr>, \<lparr>ta = 0, course = 1, cost = 0\<rparr>],
            more_capacity = [], spots_after = [0, 0]\<rparr>,
         \<lparr>tier_status = OPTIMAL, total_cost = Some 0, assignments = [],
            more_capacity = [], spots_after = [0, 0]\<rparr>], None)"
    by code_simp
  from failed_tier_carries_forward [where slv = balanced_solver and rest = "[1, 0]", OF b n] b s rest
  show ?thesis by simp
qed

end
